theory Spec2Isabelle
  imports Main
begin

section \<open>Values and the host platform\<close>

text \<open>
  The program is TypeScript. Three of its parts are embedded here: the JSON recovery
  parser (\<open>cleanJsonString\<close>, \<open>extractJsonFromText\<close>, \<open>partialRecovery\<close>,
  \<open>robustJSONParse\<close>, \<open>parseSSEData\<close>), the SSE parser (\<open>parseSSELine\<close>,
  \<open>parseSSEEvent\<close>, \<open>parseSSEStream\<close>) and the response normaliser
  (\<open>normalizeResponse\<close>).

  A thrown exception is the \<open>Inl\<close> of a sum; \<open>try ... catch\<close> is a case distinction
  on it. The files are ECMAScript modules, hence strict-mode code. A call that finds the
  call stack full throws a \<open>RangeError\<close>.

  A string is a list of code units. The model covers the code units \<open>0x00 .. 0xFF\<close>, one
  \<open>char\<close> each.
\<close>

datatype exn = SyntaxError | TypeError | RangeError

datatype 'n json =
    JNull
  | JBool bool
  | JNum 'n
  | JStr string
  | JArr "'n json list"
  | JObj "(string \<times> 'n json) list"

text \<open>
  What the program takes from the platform: \<open>JSON.parse\<close> (which throws on text that is
  not JSON), the truth value of a number (\<open>0\<close>, \<open>-0\<close> and \<open>NaN\<close> are false),
  \<open>String(n)\<close> of a number, and the room on the call stack: \<open>call_depth\<close> is the number
  of calls of \<open>normalizeResponse\<close> that can still be nested inside a running call of it.
  The type \<open>'n\<close> of numbers stays abstract.
\<close>

record 'n host =
  JSON_parse :: "string \<Rightarrow> exn + 'n json"
  Number_truthy :: "'n \<Rightarrow> bool"
  Number_toString :: "'n \<Rightarrow> string"
  call_depth :: nat

text \<open>
  A value at run time. \<open>Plain j\<close> is a primitive value, or an object or array as a
  literal or \<open>JSON.parse\<close> creates it: with the initial prototype and, for an array, no
  named property. \<open>Object\<close> is an object whose prototype has been replaced (by \<open>null\<close> or
  by a parsed object or array), with its own properties. \<open>Array\<close> is an array with its
  elements and the named properties it has been given.
\<close>

datatype 'n proto = NullPrototype | Prototype "'n json"

datatype 'n jsvalue =
    Plain "'n json"
  | Object "(string \<times> 'n json) list" "'n proto"
  | Array "'n json list" "(string \<times> 'n json) list"

definition bind_exn :: "exn + 'a \<Rightarrow> ('a \<Rightarrow> exn + 'b) \<Rightarrow> exn + 'b" where
  "bind_exn m f = (case m of Inl e \<Rightarrow> Inl e | Inr x \<Rightarrow> f x)"

subsection \<open>Truth values\<close>

fun truthy_json :: "'n host \<Rightarrow> 'n json \<Rightarrow> bool" where
  "truthy_json h JNull = False"
| "truthy_json h (JBool b) = b"
| "truthy_json h (JNum n) = Number_truthy h n"
| "truthy_json h (JStr s) = (s \<noteq> [])"
| "truthy_json h (JArr xs) = True"
| "truthy_json h (JObj kvs) = True"

text \<open>\<open>None\<close> is \<open>undefined\<close>.\<close>

definition truthy :: "'n host \<Rightarrow> 'n json option \<Rightarrow> bool" where
  "truthy h v = (case v of None \<Rightarrow> False | Some j \<Rightarrow> truthy_json h j)"

fun truthy_value :: "'n host \<Rightarrow> 'n jsvalue \<Rightarrow> bool" where
  "truthy_value h (Plain j) = truthy_json h j"
| "truthy_value h (Object kvs p) = True"
| "truthy_value h (Array xs kvs) = True"

text \<open>\<open>a || b\<close> on strings, \<open>a\<close> possibly \<open>undefined\<close> or \<open>null\<close>.\<close>

fun or_else :: "string option \<Rightarrow> string \<Rightarrow> string" where
  "or_else None d = d"
| "or_else (Some s) d = (if s = [] then d else s)"

subsection \<open>Properties\<close>

text \<open>
  Writing an own property: an existing key keeps its place, a new key goes last. (The
  engine lists keys that are array indices before the others; no function here observes
  the order of the keys, only their presence, their values and their number.)
\<close>

fun put :: "string \<Rightarrow> 'v \<Rightarrow> (string \<times> 'v) list \<Rightarrow> (string \<times> 'v) list" where
  "put k v [] = [(k, v)]"
| "put k v ((k', v') # kvs) = (if k' = k then (k, v) # kvs else (k', v') # put k v kvs)"

text \<open>
  Reading \<open>o[k]\<close> for a name \<open>k\<close> that \<open>Object.prototype\<close>, \<open>Array.prototype\<close> and the
  wrappers of the primitive values do not define and that is no array index (the program
  reads \<open>type\<close>, \<open>request_id\<close> and \<open>timestamp\<close>). Reading a property of \<open>null\<close> throws.
\<close>

fun proto_get :: "'n proto \<Rightarrow> string \<Rightarrow> 'n json option" where
  "proto_get (Prototype (JObj kvs)) k = map_of kvs k"
| "proto_get p k = None"

fun get_prop :: "'n jsvalue \<Rightarrow> string \<Rightarrow> exn + 'n json option" where
  "get_prop (Plain JNull) k = Inl TypeError"
| "get_prop (Plain (JObj kvs)) k = Inr (map_of kvs k)"
| "get_prop (Plain j) k = Inr None"
| "get_prop (Object kvs p) k =
     Inr (case map_of kvs k of Some v \<Rightarrow> Some v | None \<Rightarrow> proto_get p k)"
| "get_prop (Array xs kvs) k = Inr (map_of kvs k)"

text \<open>
  The setter of \<open>__proto__\<close> that objects inherit from \<open>Object.prototype\<close>: an object, an
  array or \<open>null\<close> becomes the prototype, any other value is ignored (\<open>None\<close>).
\<close>

fun new_prototype :: "'n json \<Rightarrow> 'n proto option" where
  "new_prototype (JObj kvs) = Some (Prototype (JObj kvs))"
| "new_prototype (JArr xs) = Some (Prototype (JArr xs))"
| "new_prototype JNull = Some NullPrototype"
| "new_prototype v = None"

text \<open>
  Whether an assignment to \<open>__proto__\<close> still reaches that setter through the prototype:
  not when the prototype is \<open>null\<close>, nor when it is an object with a data property of
  that name.
\<close>

fun inherits_setter :: "'n proto \<Rightarrow> bool" where
  "inherits_setter NullPrototype = False"
| "inherits_setter (Prototype (JObj kvs)) = (map_of kvs ''__proto__'' = None)"
| "inherits_setter (Prototype j) = True"

text \<open>
  The assignment \<open>o[k] = v\<close> in strict mode; on an array, for a name \<open>k\<close> that is
  neither an index nor \<open>length\<close> nor \<open>__proto__\<close>. On a primitive value it throws.
\<close>

fun set_prop :: "'n jsvalue \<Rightarrow> string \<Rightarrow> 'n json \<Rightarrow> exn + 'n jsvalue" where
  "set_prop (Plain (JObj kvs)) k v =
     (if k = ''__proto__'' \<and> map_of kvs k = None
      then Inr (case new_prototype v of
                  None \<Rightarrow> Plain (JObj kvs)
                | Some p \<Rightarrow> Object kvs p)
      else Inr (Plain (JObj (put k v kvs))))"
| "set_prop (Object kvs p) k v =
     (if k = ''__proto__'' \<and> map_of kvs k = None \<and> inherits_setter p
      then Inr (case new_prototype v of
                  None \<Rightarrow> Object kvs p
                | Some p' \<Rightarrow> Object kvs p')
      else Inr (Object (put k v kvs) p))"
| "set_prop (Plain (JArr xs)) k v = Inr (Array xs [(k, v)])"
| "set_prop (Array xs kvs) k v = Inr (Array xs (put k v kvs))"
| "set_prop (Plain j) k v = Inl TypeError"

text \<open>\<open>Object.keys(o).length\<close>; \<open>Object.keys(null)\<close> throws.\<close>

fun keys_length :: "'n jsvalue \<Rightarrow> exn + nat" where
  "keys_length (Plain JNull) = Inl TypeError"
| "keys_length (Plain (JObj kvs)) = Inr (length kvs)"
| "keys_length (Plain (JArr xs)) = Inr (length xs)"
| "keys_length (Plain (JStr s)) = Inr (length s)"
| "keys_length (Plain j) = Inr 0"
| "keys_length (Object kvs p) = Inr (length kvs)"
| "keys_length (Array xs kvs) = Inr (length xs + length kvs)"

section \<open>Strings\<close>

text \<open>
  \<open>String.prototype.trim\<close> and the class \<open>\s\<close> of a regular expression remove the same
  code units: tab, line feed, vertical tab, form feed, carriage return, space and the
  no-break space (and code units above \<open>0xFF\<close>).
\<close>

definition is_space :: "char \<Rightarrow> bool" where
  "is_space c \<longleftrightarrow> of_char c \<in> {9, 10, 11, 12, 13, 32, 160 :: nat}"

definition is_digit :: "char \<Rightarrow> bool" where
  "is_digit c \<longleftrightarrow> of_char c \<in> {48 .. 57 :: nat}"

definition trim :: "string \<Rightarrow> string" where
  "trim s = rev (dropWhile is_space (rev (dropWhile is_space s)))"

definition startsWith :: "string \<Rightarrow> string \<Rightarrow> bool" where
  "startsWith s p \<longleftrightarrow> take (length p) s = p"

abbreviation newline :: char where "newline \<equiv> CHR 0x0A"
abbreviation dquote :: char where "dquote \<equiv> CHR 0x22"
abbreviation backslash :: char where "backslash \<equiv> CHR 0x5C"
abbreviation backtick :: char where "backtick \<equiv> CHR 0x60"

text \<open>\<open>s.split('\n')\<close>: always at least one piece.\<close>

fun split_lines :: "string \<Rightarrow> string list" where
  "split_lines [] = [[]]"
| "split_lines (c # cs) =
     (if c = newline then [] # split_lines cs
      else (case split_lines cs of [] \<Rightarrow> [[c]] | l # ls \<Rightarrow> (c # l) # ls))"

text \<open>\<open>xs.join('\n')\<close>.\<close>

fun join_lines :: "string list \<Rightarrow> string" where
  "join_lines [] = []"
| "join_lines [x] = x"
| "join_lines (x # y # ys) = x @ newline # join_lines (y # ys)"

text \<open>The decimal numeral of a natural number and of an integer.\<close>

definition digit_char :: "nat \<Rightarrow> char" where
  "digit_char n = char_of (48 + n)"

function show_nat :: "nat \<Rightarrow> string" where
  "show_nat n = (if n < 10 then [digit_char n] else show_nat (n div 10) @ [digit_char (n mod 10)])"
  by pat_completeness auto
termination
  by (relation "measure id") auto

declare show_nat.simps [simp del]

definition show_int :: "int \<Rightarrow> string" where
  "show_int i = (if i < 0 then CHR ''-'' # show_nat (nat (- i)) else show_nat (nat i))"

section \<open>The JSON recovery parser\<close>

subsection \<open>cleanJsonString\<close>

text \<open>
  \<open>replace(/,(\s*[}\]])/g, '$1')\<close>: a comma goes when white space and then a closing
  brace or bracket follow it. A match holds no second comma, so each comma is judged on
  its own.
\<close>

definition closer_follows :: "string \<Rightarrow> bool" where
  "closer_follows cs =
     (case dropWhile is_space cs of [] \<Rightarrow> False | d # ds \<Rightarrow> d = CHR ''}'' \<or> d = CHR '']'')"

fun remove_trailing_commas :: "string \<Rightarrow> string" where
  "remove_trailing_commas [] = []"
| "remove_trailing_commas (c # cs) =
     (if c = CHR '','' \<and> closer_follows cs then remove_trailing_commas cs
      else c # remove_trailing_commas cs)"

text \<open>\<open>replace(/[\x00-\x08\x0B\x0C\x0E-\x1F]/g, '')\<close>.\<close>

definition is_control :: "char \<Rightarrow> bool" where
  "is_control c \<longleftrightarrow> of_char c \<in> {0 .. 8 :: nat} \<union> {11, 12} \<union> {14 .. 31}"

definition remove_control :: "string \<Rightarrow> string" where
  "remove_control s = filter (\<lambda>c. \<not> is_control c) s"

text \<open>
  \<open>replace(/(?<!\\)\\n/g, '\\n')\<close>: a backslash followed by \<open>n\<close>, with no backslash
  before it, is replaced by a backslash followed by \<open>n\<close>. The first argument is the code
  unit before the current position.
\<close>

fun fix_newlines :: "char option \<Rightarrow> string \<Rightarrow> string" where
  "fix_newlines prev (c # d # cs) =
     (if c = backslash \<and> d = CHR ''n'' \<and> prev \<noteq> Some backslash
      then backslash # CHR ''n'' # fix_newlines (Some d) cs
      else c # fix_newlines (Some c) (d # cs))"
| "fix_newlines prev cs = cs"

text \<open>
  The last step, \<open>replace(/^\uFEFF/, '')\<close>, removes a code unit that does not occur in
  the strings of this model.
\<close>

definition cleanJsonString :: "string \<Rightarrow> string" where
  "cleanJsonString input =
     fix_newlines None (remove_control (remove_trailing_commas (trim input)))"

subsection \<open>extractJsonFromText\<close>

definition fence :: string where
  "fence = [backtick, backtick, backtick]"

text \<open>The text before the first fence of a string, if it has one.\<close>

fun before_fence :: "string \<Rightarrow> string option" where
  "before_fence [] = None"
| "before_fence (c # cs) =
     (if startsWith (c # cs) fence then Some []
      else map_option ((#) c) (before_fence cs))"

text \<open>
  The first group of the leftmost match of \<open>/```(?:json)?\s*([\s\S]*?)```/\<close>. After an
  opening fence the optional \<open>json\<close> and the white space are taken greedily; giving
  them back cannot produce a match, since a closing fence starts with a backtick.
\<close>

fun code_block :: "string \<Rightarrow> string option" where
  "code_block [] = None"
| "code_block (c # cs) =
     (if startsWith (c # cs) fence then
        (let r = drop 3 (c # cs);
             r' = (if startsWith r ''json'' then drop 4 r else r)
         in case before_fence (dropWhile is_space r') of
              Some body \<Rightarrow> Some body
            | None \<Rightarrow> code_block cs)
      else code_block cs)"

text \<open>\<open>/\{[\s\S]*\}/\<close> and \<open>/\[[\s\S]*\]/\<close>: an opener with a closer somewhere after it.\<close>

definition has_span :: "char \<Rightarrow> char \<Rightarrow> string \<Rightarrow> bool" where
  "has_span l r s =
     (case dropWhile (\<lambda>c. c \<noteq> l) s of [] \<Rightarrow> False | c # cs \<Rightarrow> r \<in> set cs)"

text \<open>
  The depth-counting loop, from index \<open>i\<close> on: the result is the final \<open>(start, end)\<close>,
  with \<open>-1\<close> for a variable that was never set.
\<close>

fun scan :: "char \<Rightarrow> char \<Rightarrow> string \<Rightarrow> nat \<Rightarrow> int \<Rightarrow> int \<Rightarrow> int \<times> int" where
  "scan l r [] i depth start = (start, -1)"
| "scan l r (c # cs) i depth start =
     (if c = l then scan l r cs (i + 1) (depth + 1) (if depth = 0 then int i else start)
      else if c = r then
        (if depth - 1 = 0 then (start, int i + 1)
         else scan l r cs (i + 1) (depth - 1) start)
      else scan l r cs (i + 1) depth start)"

definition balanced :: "char \<Rightarrow> char \<Rightarrow> string \<Rightarrow> string option" where
  "balanced l r str =
     (if has_span l r str then
        (case scan l r str 0 0 (-1) of (start, end) \<Rightarrow>
           if start \<noteq> -1 \<and> end \<noteq> -1
           then Some (take (nat (end - start)) (drop (nat start) str))
           else None)
      else None)"

definition extractJsonFromText :: "string \<Rightarrow> string option" where
  "extractJsonFromText input =
     (case code_block input of
        Some body \<Rightarrow> Some (trim body)
      | None \<Rightarrow>
         (case balanced (CHR ''{'') (CHR ''}'') input of
            Some s \<Rightarrow> Some s
          | None \<Rightarrow> balanced (CHR ''['') (CHR '']'') input))"

subsection \<open>partialRecovery\<close>

text \<open>
  The pattern is
  \<open>/"([^"]+)"\s*:\s*("(?:[^"\\]|\\.)*"|true|false|null|\d+(?:\.\d+)?|\[[\s\S]*?\]|\{[\s\S]*?\})/g\<close>.
  Each matcher below takes the text at the current position and returns what it matched
  together with the rest. No part of the pattern can match in two ways that differ in
  what follows, so the first way is the only one.
\<close>

definition is_line_terminator :: "char \<Rightarrow> bool" where
  "is_line_terminator c \<longleftrightarrow> c = newline \<or> c = CHR 0x0D"

text \<open>\<open>(?:[^"\\]|\\.)*"\<close>, after the opening quote; the dot matches no line terminator.\<close>

fun string_rest :: "string \<Rightarrow> (string \<times> string) option" where
  "string_rest [] = None"
| "string_rest (c # cs) =
     (if c = dquote then Some ([c], cs)
      else if c = backslash then
        (case cs of
           [] \<Rightarrow> None
         | d # ds \<Rightarrow>
             if is_line_terminator d then None
             else map_option (\<lambda>(b, r). (c # d # b, r)) (string_rest ds))
      else map_option (\<lambda>(b, r). (c # b, r)) (string_rest cs))"

text \<open>\<open>\d+(?:\.\d+)?\<close>, at a digit.\<close>

definition number_text :: "string \<Rightarrow> string \<times> string" where
  "number_text s =
     (let ds = takeWhile is_digit s; r = dropWhile is_digit s
      in case r of
           d # e # es \<Rightarrow>
             if d = CHR ''.'' \<and> is_digit e
             then (ds @ d # takeWhile is_digit (e # es), dropWhile is_digit (e # es))
             else (ds, r)
         | _ \<Rightarrow> (ds, r))"

text \<open>\<open>[\s\S]*?\<close> and the closer, after the opener: up to the first closer.\<close>

definition up_to :: "char \<Rightarrow> string \<Rightarrow> (string \<times> string) option" where
  "up_to r cs =
     (case dropWhile (\<lambda>c. c \<noteq> r) cs of
        [] \<Rightarrow> None
      | d # ds \<Rightarrow> Some (takeWhile (\<lambda>c. c \<noteq> r) cs @ [d], ds))"

definition match_value :: "string \<Rightarrow> (string \<times> string) option" where
  "match_value s =
     (case s of
        [] \<Rightarrow> None
      | c # cs \<Rightarrow>
          if c = dquote then map_option (\<lambda>(b, r). (c # b, r)) (string_rest cs)
          else if startsWith s ''true'' then Some (''true'', drop 4 s)
          else if startsWith s ''false'' then Some (''false'', drop 5 s)
          else if startsWith s ''null'' then Some (''null'', drop 4 s)
          else if is_digit c then Some (number_text s)
          else if c = CHR ''['' then map_option (\<lambda>(b, r). (c # b, r)) (up_to (CHR '']'') cs)
          else if c = CHR ''{'' then map_option (\<lambda>(b, r). (c # b, r)) (up_to (CHR ''}'') cs)
          else None)"

text \<open>A match of the whole pattern at the current position: key, value text, rest.\<close>

definition match_kv :: "string \<Rightarrow> (string \<times> string \<times> string) option" where
  "match_kv s =
     (case s of
        [] \<Rightarrow> None
      | c # cs \<Rightarrow>
          if c \<noteq> dquote then None
          else
            (let key = takeWhile (\<lambda>x. x \<noteq> dquote) cs;
                 r1 = dropWhile (\<lambda>x. x \<noteq> dquote) cs
             in if key = [] \<or> r1 = [] then None
                else
                  (case dropWhile is_space (tl r1) of
                     [] \<Rightarrow> None
                   | d # r2 \<Rightarrow>
                       if d \<noteq> CHR '':'' then None
                       else
                         (case match_value (dropWhile is_space r2) of
                            None \<Rightarrow> None
                          | Some (v, rest) \<Rightarrow> Some (key, v, rest)))))"

text \<open>\<open>replace(/^"|"$/g, '')\<close>.\<close>

definition strip_quotes :: "string \<Rightarrow> string" where
  "strip_quotes s =
     (let s1 = (case s of [] \<Rightarrow> [] | c # cs \<Rightarrow> if c = dquote then cs else s)
      in if s1 \<noteq> [] \<and> last s1 = dquote then butlast s1 else s1)"

text \<open>
  The statement in the loop body:
  \<open>try { result[key] = JSON.parse(valueStr) } catch { result[key] = valueStr.replace(...) }\<close>.
\<close>

definition store :: "'n host \<Rightarrow> 'n jsvalue \<Rightarrow> string \<Rightarrow> string \<Rightarrow> exn + 'n jsvalue" where
  "store h result key valueStr =
     (case bind_exn (JSON_parse h valueStr) (set_prop result key) of
        Inr result' \<Rightarrow> Inr result'
      | Inl e \<Rightarrow> set_prop result key (JStr (strip_quotes valueStr)))"

lemma string_rest_shorter: "string_rest s = Some (b, r) \<Longrightarrow> length r < length s"
proof (induction s arbitrary: b r rule: string_rest.induct)
  case 1
  then show ?case by simp
next
  case (2 c cs)
  show ?case
  proof (cases "c = dquote")
    case True
    with "2.prems" show ?thesis by simp
  next
    case notq: False
    show ?thesis
    proof (cases "c = backslash")
      case True
      with notq "2.prems" obtain d ds b' where
        cs: "cs = d # ds" and nt: "\<not> is_line_terminator d" and r: "string_rest ds = Some (b', r)"
        by (auto split: list.splits if_splits)
      from "2.IH"(1) [OF notq True cs nt r] cs show ?thesis by simp
    next
      case False
      with notq "2.prems" obtain b' where r: "string_rest cs = Some (b', r)"
        by auto
      from "2.IH"(2) [OF notq False r] show ?thesis by simp
    qed
  qed
qed

lemma up_to_shorter: "up_to c s = Some (b, r) \<Longrightarrow> length r < length s"
proof -
  assume a: "up_to c s = Some (b, r)"
  then obtain d where d: "dropWhile (\<lambda>x. x \<noteq> c) s = d # r"
    by (auto simp: up_to_def split: list.splits)
  have "length (dropWhile (\<lambda>x. x \<noteq> c) s) \<le> length s"
    by (rule length_dropWhile_le)
  with d show ?thesis by simp
qed

lemma number_text_rest:
  "length (snd (number_text s)) \<le> length (dropWhile is_digit s)"
proof -
  define r where "r = dropWhile is_digit s"
  have le: "\<And>e es. length (dropWhile is_digit (e # es)) \<le> Suc (length es)"
    using length_dropWhile_le [of is_digit] by (metis length_Cons)
  have "length (snd (case r of
            d # e # es \<Rightarrow>
              if d = CHR ''.'' \<and> is_digit e
              then (takeWhile is_digit s @ d # takeWhile is_digit (e # es),
                    dropWhile is_digit (e # es))
              else (takeWhile is_digit s, r)
          | _ \<Rightarrow> (takeWhile is_digit s, r))) \<le> length r"
    using le by (auto split: list.splits simp: le_SucI simp del: dropWhile.simps)
  then show ?thesis
    unfolding number_text_def Let_def r_def .
qed

lemma number_text_shorter:
  assumes "s = c # cs" "is_digit c" "number_text s = (b, r)"
  shows "length r < length s"
proof -
  have "length (dropWhile is_digit cs) \<le> length cs"
    by (rule length_dropWhile_le)
  then have "length (dropWhile is_digit s) < length s"
    using assms(1,2) by simp
  moreover have "length r \<le> length (dropWhile is_digit s)"
    using number_text_rest [of s] assms(3) by simp
  ultimately show ?thesis by simp
qed

lemma match_value_shorter: "match_value s = Some (b, r) \<Longrightarrow> length r < length s"
proof (cases s)
  case Nil
  assume "match_value s = Some (b, r)"
  with Nil show ?thesis by (simp add: match_value_def)
next
  case (Cons c cs)
  assume a: "match_value s = Some (b, r)"
  from a Cons show ?thesis
    unfolding match_value_def
    by (auto simp: startsWith_def split: if_splits
             dest!: string_rest_shorter up_to_shorter
             dest: number_text_shorter [OF refl, of c cs b r])
qed

lemma match_kv_shorter: "match_kv s = Some (k, v, r) \<Longrightarrow> length r < length s"
proof -
  assume a: "match_kv s = Some (k, v, r)"
  then obtain c cs where s: "s = c # cs"
    by (cases s) (auto simp: match_kv_def)
  let ?r1 = "dropWhile (\<lambda>x. x \<noteq> dquote) cs"
  from a s obtain d r2 where
    r2: "dropWhile is_space (tl ?r1) = d # r2" and
    mv: "match_value (dropWhile is_space r2) = Some (v, r)"
    by (auto simp: match_kv_def Let_def split: if_splits list.splits option.splits)
  have "length r < length (dropWhile is_space r2)"
    using mv by (rule match_value_shorter)
  also have "\<dots> \<le> length r2" by (rule length_dropWhile_le)
  also have "\<dots> < length (dropWhile is_space (tl ?r1))" using r2 by simp
  also have "\<dots> \<le> length (tl ?r1)" by (rule length_dropWhile_le)
  also have "\<dots> \<le> length ?r1" by simp
  also have "\<dots> \<le> length cs" by (rule length_dropWhile_le)
  finally show ?thesis using s by simp
qed

text \<open>
  The loop \<open>while ((match = kvPattern.exec(input)) !== null)\<close>, on the text from
  \<open>lastIndex\<close> on: the pattern is tried at each position in turn, and the search resumes
  behind a match.
\<close>

function recover ::
  "'n host \<Rightarrow> string \<Rightarrow> 'n jsvalue \<Rightarrow> bool \<Rightarrow> exn + 'n jsvalue \<times> bool" where
  "recover h [] result foundAny = Inr (result, foundAny)"
| "recover h (c # cs) result foundAny =
     (case match_kv (c # cs) of
        None \<Rightarrow> recover h cs result foundAny
      | Some (key, valueStr, rest) \<Rightarrow>
          (case store h result key valueStr of
             Inl e \<Rightarrow> Inl e
           | Inr result' \<Rightarrow> recover h rest result' True))"
  by pat_completeness auto
termination
  by (relation "measure (\<lambda>(h, s, result, foundAny). length s)")
     (auto dest: match_kv_shorter)

definition partialRecovery :: "'n host \<Rightarrow> string \<Rightarrow> exn + 'n jsvalue option" where
  "partialRecovery h input =
     bind_exn (recover h input (Plain (JObj [])) False)
       (\<lambda>(result, foundAny). Inr (if foundAny then Some result else None))"

subsection \<open>robustJSONParse\<close>

record 'n ParseResult =
  success :: bool
  data :: "'n jsvalue option"
  raw :: "string option"
  error :: "string option"
  strategy :: "string option"

text \<open>Strategy 4, partial recovery, and strategy 5, the raw text.\<close>

definition recovery_or_raw :: "'n host \<Rightarrow> string \<Rightarrow> exn + 'n ParseResult" where
  "recovery_or_raw h trimmed =
     bind_exn (partialRecovery h trimmed) (\<lambda>partial.
     bind_exn (case partial of
                 None \<Rightarrow> Inr False
               | Some p \<Rightarrow> bind_exn (keys_length p) (\<lambda>n. Inr (n > 0))) (\<lambda>recovered.
       if recovered
       then Inr \<lparr> success = True, data = partial, raw = None, error = None,
                  strategy = Some ''partial_recovery'' \<rparr>
       else Inr \<lparr> success = False, data = None, raw = Some trimmed,
                  error = Some ''All parsing strategies failed'',
                  strategy = Some ''raw_fallback'' \<rparr>))"

definition robustJSONParse :: "'n host \<Rightarrow> string \<Rightarrow> exn + 'n ParseResult" where
  "robustJSONParse h input =
     (if input = []
      then Inr \<lparr> success = False, data = None, raw = Some input,
                 error = Some ''Invalid input: expected string'', strategy = Some ''none'' \<rparr>
      else
        (let trimmed = trim input in
         case JSON_parse h trimmed of
           Inr d \<Rightarrow> Inr \<lparr> success = True, data = Some (Plain d), raw = None, error = None,
                           strategy = Some ''direct'' \<rparr>
         | Inl e1 \<Rightarrow>
        (case JSON_parse h (cleanJsonString trimmed) of
           Inr d \<Rightarrow> Inr \<lparr> success = True, data = Some (Plain d), raw = None, error = None,
                           strategy = Some ''cleaned'' \<rparr>
         | Inl e2 \<Rightarrow>
        (case extractJsonFromText trimmed of
           None \<Rightarrow> recovery_or_raw h trimmed
         | Some extracted \<Rightarrow>
             if extracted = [] then recovery_or_raw h trimmed
             else
               (case JSON_parse h extracted of
                  Inr d \<Rightarrow> Inr \<lparr> success = True, data = Some (Plain d), raw = None,
                                  error = None, strategy = Some ''extracted'' \<rparr>
                | Inl e3 \<Rightarrow>
               (case JSON_parse h (cleanJsonString extracted) of
                  Inr d \<Rightarrow> Inr \<lparr> success = True, data = Some (Plain d), raw = None,
                                  error = None, strategy = Some ''extracted_cleaned'' \<rparr>
                | Inl e4 \<Rightarrow> recovery_or_raw h trimmed))))))"

subsection \<open>parseSSEData\<close>

definition parseSSEData :: "'n host \<Rightarrow> string \<Rightarrow> exn + 'n ParseResult" where
  "parseSSEData h data0 =
     (let data1 = (if startsWith data0 ''data: '' then drop 6 data0 else data0) in
      if data1 = ''[DONE]''
      then Inr \<lparr> success = True, data = Some (Plain (JObj [(''done'', JBool True)])),
                 raw = None, error = None, strategy = Some ''sse_done'' \<rparr>
      else robustJSONParse h data1)"

section \<open>The SSE event parser\<close>

record 'n ParsedSSEEvent =
  success :: bool
  event :: "'n jsvalue option"
  eventType :: "'n json option"
  raw :: "string option"
  error :: "string option"
  parseStrategy :: "string option"

datatype line_type = EventLine | DataLine | OtherLine

definition parseSSELine :: "string \<Rightarrow> line_type \<times> string" where
  "parseSSELine line =
     (if startsWith line ''event: '' then (EventLine, trim (drop 7 line))
      else if startsWith line ''data: '' then (DataLine, drop 6 line)
      else (OtherLine, line))"

text \<open>
  \<open>now\<close> is what \<open>new Date().toISOString()\<close> returns during the call;
  \<open>declaredType\<close> and \<open>payload\<close> are the parameters \<open>eventType\<close> and \<open>data\<close>. The
  payload may carry any value as its \<open>type\<close>, so the field \<open>eventType\<close> holds a value.
\<close>

definition parseSSEEvent ::
  "'n host \<Rightarrow> string \<Rightarrow> string \<Rightarrow> string \<Rightarrow> string option \<Rightarrow> exn + 'n ParsedSSEEvent" where
  "parseSSEEvent h now declaredType payload requestId =
     (if payload = ''[DONE]''
      then Inr \<lparr> success = True,
                 event = Some (Plain (JObj [(''type'', JStr ''chat_completed''),
                                            (''request_id'', JStr (or_else requestId [])),
                                            (''timestamp'', JStr now)])),
                 eventType = Some (JStr ''chat_completed''),
                 raw = None, error = None, parseStrategy = None \<rparr>
      else
        bind_exn (robustJSONParse h payload) (\<lambda>parseResult.
          let failed = Inr \<lparr> success = False, event = None,
                              eventType = Some (JStr ''parse_error''),
                              raw = Some (or_else (ParseResult.raw parseResult) payload),
                              error = Some (or_else (ParseResult.error parseResult)
                                              ''Failed to parse SSE data''),
                              parseStrategy = strategy parseResult \<rparr>
          in case ParseResult.data parseResult of
               None \<Rightarrow> failed
             | Some eventData \<Rightarrow>
                 if ParseResult.success parseResult \<and> truthy_value h eventData then
                   bind_exn (get_prop eventData ''type'') (\<lambda>t.
                   bind_exn (if \<not> truthy h t
                             then set_prop eventData ''type'' (JStr declaredType)
                             else Inr eventData) (\<lambda>e1.
                   bind_exn (get_prop e1 ''request_id'') (\<lambda>r.
                   bind_exn (if \<not> truthy h r \<and> or_else requestId [] \<noteq> []
                             then set_prop e1 ''request_id'' (JStr (or_else requestId []))
                             else Inr e1) (\<lambda>e2.
                   bind_exn (get_prop e2 ''timestamp'') (\<lambda>ts.
                   bind_exn (if \<not> truthy h ts
                             then set_prop e2 ''timestamp'' (JStr now)
                             else Inr e2) (\<lambda>e3.
                   bind_exn (get_prop e3 ''type'') (\<lambda>t'.
                     Inr \<lparr> success = True, event = Some e3,
                           eventType = (if truthy h t' then t' else Some (JStr declaredType)),
                           raw = None, error = None,
                           parseStrategy = strategy parseResult \<rparr>)))))))
                 else failed))"

subsection \<open>parseSSEStream\<close>

text \<open>
  The block that both the blank-line branch and the end of the function run:
  \<open>if (currentData.length > 0) { ... events.push(parseSSEEvent(eventType, data, requestId)) }\<close>.
  \<open>clock k\<close> is the time that call number \<open>k\<close> of \<open>parseSSEEvent\<close> reads; every earlier
  call has returned and pushed one event.
\<close>

definition flush ::
  "'n host \<Rightarrow> (nat \<Rightarrow> string) \<Rightarrow> string option \<Rightarrow>
   'n ParsedSSEEvent list \<Rightarrow> string option \<Rightarrow> string list \<Rightarrow> exn + 'n ParsedSSEEvent list" where
  "flush h clock requestId events currentEventType currentData =
     (if currentData \<noteq> []
      then bind_exn (parseSSEEvent h (clock (length events))
                       (or_else currentEventType ''message'')
                       (join_lines currentData) requestId)
             (\<lambda>e. Inr (events @ [e]))
      else Inr events)"

text \<open>The loop over the lines, on the state \<open>(events, currentEventType, currentData)\<close>.\<close>

fun process_lines ::
  "'n host \<Rightarrow> (nat \<Rightarrow> string) \<Rightarrow> string option \<Rightarrow> string list \<Rightarrow>
   'n ParsedSSEEvent list \<times> string option \<times> string list \<Rightarrow>
   exn + 'n ParsedSSEEvent list \<times> string option \<times> string list" where
  "process_lines h clock requestId [] st = Inr st"
| "process_lines h clock requestId (line # lines) (events, currentEventType, currentData) =
     (if trim line = [] then
        (case flush h clock requestId events currentEventType currentData of
           Inl e \<Rightarrow> Inl e
         | Inr events' \<Rightarrow> process_lines h clock requestId lines (events', None, []))
      else
        (case parseSSELine line of
           (EventLine, v) \<Rightarrow>
             process_lines h clock requestId lines (events, Some v, currentData)
         | (DataLine, v) \<Rightarrow>
             process_lines h clock requestId lines (events, currentEventType, currentData @ [v])
         | (OtherLine, v) \<Rightarrow>
             process_lines h clock requestId lines (events, currentEventType, currentData)))"

definition parseSSEStream ::
  "'n host \<Rightarrow> (nat \<Rightarrow> string) \<Rightarrow> string \<Rightarrow> string option \<Rightarrow> exn + 'n ParsedSSEEvent list" where
  "parseSSEStream h clock rawSSE requestId =
     bind_exn (process_lines h clock requestId (split_lines rawSSE) ([], None, []))
       (\<lambda>(events, currentEventType, currentData).
          flush h clock requestId events currentEventType currentData)"

section \<open>The response normaliser\<close>

record 'n NormalizedAgentResponse =
  status :: string
  result :: "'n json option"
  message :: "'n json option"
  metadata :: "'n json option"

fun typeof :: "'n json \<Rightarrow> string" where
  "typeof JNull = ''object''"
| "typeof (JBool b) = ''boolean''"
| "typeof (JNum n) = ''number''"
| "typeof (JStr s) = ''string''"
| "typeof (JArr xs) = ''object''"
| "typeof (JObj kvs) = ''object''"

text \<open>
  \<open>k in v\<close>, for a name \<open>k\<close> that the prototypes do not define and that is no array index: it
  throws unless \<open>v\<close> is an object.
\<close>

fun has_property :: "string \<Rightarrow> 'n json \<Rightarrow> exn + bool" where
  "has_property k (JObj kvs) = Inr (map_of kvs k \<noteq> None)"
| "has_property k (JArr xs) = Inr False"
| "has_property k v = Inl TypeError"

text \<open>\<open>v.k\<close> for such a name; it throws on \<open>null\<close>.\<close>

fun member :: "'n json \<Rightarrow> string \<Rightarrow> exn + 'n json option" where
  "member JNull k = Inl TypeError"
| "member (JObj kvs) k = Inr (map_of kvs k)"
| "member v k = Inr None"

text \<open>
  \<open>String(v)\<close>. An array is its elements joined by commas, with nothing for \<open>null\<close>.
\<close>

fun join_commas :: "string list \<Rightarrow> string" where
  "join_commas [] = []"
| "join_commas [x] = x"
| "join_commas (x # y # ys) = x @ CHR '','' # join_commas (y # ys)"

fun String_of :: "'n host \<Rightarrow> 'n json \<Rightarrow> string" where
  "String_of h JNull = ''null''"
| "String_of h (JBool b) = (if b then ''true'' else ''false'')"
| "String_of h (JNum n) = Number_toString h n"
| "String_of h (JStr s) = s"
| "String_of h (JArr xs) =
     join_commas (map (\<lambda>x. if x = JNull then [] else String_of h x) xs)"
| "String_of h (JObj kvs) = ''[object Object]''"

text \<open>
  \<open>const { status, message, metadata, ...rest } = parsed\<close> gives \<open>rest\<close> the other own
  enumerable properties: of an array and of a string those are the elements under their
  indices, a boolean and a number have none, and \<open>null\<close> cannot be destructured.
\<close>

definition indexed :: "'a list \<Rightarrow> (string \<times> 'a) list" where
  "indexed xs = zip (map show_nat [0 ..< length xs]) xs"

fun rest_of :: "'n json \<Rightarrow> exn + 'n json" where
  "rest_of JNull = Inl TypeError"
| "rest_of (JObj kvs) =
     Inr (JObj (filter (\<lambda>(k, v). k \<notin> {''status'', ''message'', ''metadata''}) kvs))"
| "rest_of (JArr xs) = Inr (JObj (indexed xs))"
| "rest_of (JStr s) = Inr (JObj (indexed (map (\<lambda>c. JStr [c]) s)))"
| "rest_of v = Inr (JObj [])"

lemma bind_exn_cong [fundef_cong]:
  "m = m' \<Longrightarrow> (\<And>x. m' = Inr x \<Longrightarrow> f x = f' x) \<Longrightarrow> bind_exn m f = bind_exn m' f'"
  by (auto simp: bind_exn_def split: sum.splits)


text \<open>
  \<open>normalizeResponse_at h room parsed\<close> is the body of \<open>normalizeResponse\<close>, run
  when the call stack can take \<open>room\<close> more nested calls. The recursive call
  \<open>normalizeResponse(parsed.response)\<close> takes one of them, and throws when none is left.
\<close>

function normalizeResponse_at ::
  "'n host \<Rightarrow> nat \<Rightarrow> 'n json option \<Rightarrow> exn + 'n NormalizedAgentResponse" where
  "normalizeResponse_at h room parsed =
     (case parsed of
        None \<Rightarrow>
          Inr \<lparr> status = ''error'', result = Some (JObj []),
                message = Some (JStr ''Empty response from agent''), metadata = None \<rparr>
      | Some v \<Rightarrow>
          if \<not> truthy_json h v then
            Inr \<lparr> status = ''error'', result = Some (JObj []),
                  message = Some (JStr ''Empty response from agent''), metadata = None \<rparr>
          else if typeof v = ''string'' then
            Inr \<lparr> status = ''success'', result = Some (JObj [(''text'', v)]),
                  message = Some v, metadata = None \<rparr>
          else if typeof v \<noteq> ''object'' then
            Inr \<lparr> status = ''success'', result = Some (JObj [(''value'', v)]),
                  message = Some (JStr (String_of h v)), metadata = None \<rparr>
          else
            bind_exn (has_property ''status'' v) (\<lambda>has_status.
            bind_exn (if has_status then has_property ''result'' v else Inr False) (\<lambda>both.
            if both then
              bind_exn (member v ''status'') (\<lambda>st.
              bind_exn (member v ''result'') (\<lambda>res.
              bind_exn (member v ''message'') (\<lambda>msg.
              bind_exn (member v ''metadata'') (\<lambda>md.
                Inr \<lparr> status = (if st = Some (JStr ''error'') then ''error'' else ''success''),
                      result = (if truthy h res then res else Some (JObj [])),
                      message = msg, metadata = md \<rparr>))))
            else if has_status then
              bind_exn (member v ''status'') (\<lambda>st.
              bind_exn (member v ''message'') (\<lambda>msg.
              bind_exn (member v ''metadata'') (\<lambda>md.
              bind_exn (rest_of v) (\<lambda>rest.
              bind_exn (keys_length (Plain rest)) (\<lambda>n.
                Inr \<lparr> status = (if st = Some (JStr ''error'') then ''error'' else ''success''),
                      result = Some (if n > 0 then rest else JObj []),
                      message = msg, metadata = md \<rparr>)))))
            else
              bind_exn (has_property ''result'' v) (\<lambda>has_result.
              if has_result then
                bind_exn (member v ''result'') (\<lambda>res.
                bind_exn (member v ''message'') (\<lambda>msg.
                bind_exn (member v ''metadata'') (\<lambda>md.
                  Inr \<lparr> status = ''success'', result = res, message = msg, metadata = md \<rparr>)))
              else
                bind_exn (has_property ''message'' v) (\<lambda>has_message.
                bind_exn (if has_message
                          then bind_exn (member v ''message'') (\<lambda>m.
                                 Inr (case m of Some (JStr s) \<Rightarrow> True | _ \<Rightarrow> False))
                          else Inr False) (\<lambda>string_message.
                if string_message then
                  bind_exn (member v ''message'') (\<lambda>msg.
                    Inr \<lparr> status = ''success'',
                          result = Some (JObj (case msg of
                                                 None \<Rightarrow> []
                                               | Some m \<Rightarrow> [(''text'', m)])),
                          message = msg, metadata = None \<rparr>)
                else
                  bind_exn (has_property ''response'' v) (\<lambda>has_response.
                  if has_response then
                    bind_exn (member v ''response'') (\<lambda>r.
                      case room of
                        0 \<Rightarrow> Inl RangeError
                      | Suc k \<Rightarrow> normalizeResponse_at h k r)
                  else
                    Inr \<lparr> status = ''success'', result = Some v,
                          message = None, metadata = None \<rparr>)))))))"
  by pat_completeness auto
termination
  by (relation "measure (\<lambda>(h, room, p). room)") auto

declare normalizeResponse_at.simps [simp del]

definition normalizeResponse ::
  "'n host \<Rightarrow> 'n json option \<Rightarrow> exn + 'n NormalizedAgentResponse" where
  "normalizeResponse h parsed = normalizeResponse_at h (call_depth h) parsed"


section \<open>Vocabulary of the properties\<close>


text \<open>Objects that are not arrays.\<close>

fun is_plain_object :: "'n jsvalue \<Rightarrow> bool" where
  "is_plain_object (Plain (JObj kvs)) = True"
| "is_plain_object (Object kvs p) = True"
| "is_plain_object v = False"

text \<open>The invariant of a \<open>ParseResult\<close>; a field is present when it is not \<open>undefined\<close>.\<close>

definition ParseResult_ok :: "'n ParseResult \<Rightarrow> bool" where
  "ParseResult_ok r \<longleftrightarrow>
     (ParseResult.success r \<longrightarrow>
        data r \<noteq> None \<and>
        strategy r \<in> Some ` {''direct'', ''cleaned'', ''extracted'', ''extracted_cleaned'',
                              ''partial_recovery'', ''sse_done''}) \<and>
     (\<not> ParseResult.success r \<longrightarrow> ParseResult.raw r \<noteq> None \<and> ParseResult.error r \<noteq> None) \<and>
     strategy r \<noteq> None"




text \<open>
  A canonical response \<open>{status, result, message?, metadata?}\<close>, as the list of its
  properties: \<open>status\<close> is \<open>success\<close> or \<open>error\<close>, \<open>result\<close> is a mapping, \<open>message\<close>
  is a string when present, \<open>metadata\<close> is a mapping when present, and there is no other
  property.
\<close>

fun is_status :: "'n json option \<Rightarrow> bool" where
  "is_status (Some (JStr s)) = (s = ''success'' \<or> s = ''error'')"
| "is_status v = False"

fun is_mapping :: "'n json option \<Rightarrow> bool" where
  "is_mapping (Some (JObj kvs)) = True"
| "is_mapping v = False"

fun is_string :: "'n json option \<Rightarrow> bool" where
  "is_string (Some (JStr s)) = True"
| "is_string v = False"

definition canonical :: "(string \<times> 'n json) list \<Rightarrow> bool" where
  "canonical kvs \<longleftrightarrow>
     is_status (map_of kvs ''status'') \<and>
     is_mapping (map_of kvs ''result'') \<and>
     (map_of kvs ''message'' = None \<or> is_string (map_of kvs ''message'')) \<and>
     (map_of kvs ''metadata'' = None \<or> is_mapping (map_of kvs ''metadata'')) \<and>
     list_all (\<lambda>(k, v). k \<in> {''status'', ''result'', ''message'', ''metadata''}) kvs"

text \<open>
  The properties of a normalised response that are not \<open>undefined\<close>: those that
  \<open>JSON.stringify\<close> writes and that a deep comparison looks at.
\<close>

definition optional_field :: "string \<Rightarrow> 'n json option \<Rightarrow> (string \<times> 'n json) list" where
  "optional_field k v = (case v of None \<Rightarrow> [] | Some x \<Rightarrow> [(k, x)])"

definition response_fields :: "'n NormalizedAgentResponse \<Rightarrow> (string \<times> 'n json) list" where
  "response_fields n =
     (''status'', JStr (status n)) #
     optional_field ''result'' (result n) @
     optional_field ''message'' (message n) @
     optional_field ''metadata'' (metadata n)"

text \<open>
  The frames of a stream as the specification describes them, each with its declared
  type and its data: a line \<open>event: \<close> sets the type, a line \<open>data: \<close> adds a data
  line, a blank line and the end of the input close the frame, a frame without data
  lines is dropped, and a frame without type has the type \<open>message\<close>. The second
  argument is the frame under construction.
\<close>

fun frames :: "string list \<Rightarrow> string option \<times> string list \<Rightarrow> (string \<times> string) list" where
  "frames [] (t, d) = (if d = [] then [] else [(or_else t ''message'', join_lines d)])"
| "frames (l # ls) (t, d) =
     (if trim l = [] then
        (if d = [] then [] else [(or_else t ''message'', join_lines d)]) @ frames ls (None, [])
      else if startsWith l ''event: '' then frames ls (Some (trim (drop 7 l)), d)
      else if startsWith l ''data: '' then frames ls (t, d @ [drop 6 l])
      else frames ls (t, d))"

text \<open>One call of \<open>parseSSEEvent\<close> per frame, in order; the first exception ends the run.\<close>

fun parse_frames ::
  "'n host \<Rightarrow> (nat \<Rightarrow> string) \<Rightarrow> string option \<Rightarrow> 'n ParsedSSEEvent list \<Rightarrow>
   (string \<times> string) list \<Rightarrow> exn + 'n ParsedSSEEvent list" where
  "parse_frames h clock rid events [] = Inr events"
| "parse_frames h clock rid events ((t, d) # fs) =
     (case parseSSEEvent h (clock (length events)) t d rid of
        Inl e \<Rightarrow> Inl e
      | Inr ev \<Rightarrow> parse_frames h clock rid (events @ [ev]) fs)"

subsection \<open>A reference host\<close>

text \<open>
  A host for closed examples. Its numbers are integers, and \<open>String(n)\<close> is the decimal
  numeral, as it is for integers of fewer than 22 digits. Its call stack has room for
  10000 nested calls of \<open>normalizeResponse\<close>, the order of magnitude of an engine's. Its \<open>JSON.parse\<close> is an excerpt of the real one: it knows the texts listed in
  \<open>reference_texts\<close>, with the values that \<open>JSON.parse\<close> gives them, and rejects every
  other text. The examples below apply it to the listed texts and to texts that are not
  JSON.
\<close>

definition reference_texts :: "(string \<times> int json) list" where
  \<open>reference_texts =
     [(''null'', JNull),
      (''5'', JNum 5),
      (''{"a":1}'', JObj [(''a'', JNum 1)]),
      (''{"type":"ping"}'', JObj [(''type'', JStr ''ping'')]),
      (''{"status":"success","result":{}}'',
         JObj [(''status'', JStr ''success''), (''result'', JObj [])])]\<close>

definition reference_host :: "int host" where
  "reference_host =
     \<lparr> JSON_parse = (\<lambda>s. case map_of reference_texts s of
                             Some v \<Rightarrow> Inr v
                           | None \<Rightarrow> Inl SyntaxError),
       Number_truthy = (\<lambda>n. n \<noteq> 0),
       Number_toString = show_int,
       call_depth = 10000 \<rparr>"

section \<open>Properties\<close>

subsection \<open>The recovery loop always returns an object\<close>

lemma set_prop_plain_object:
  "is_plain_object v \<Longrightarrow> \<exists>v'. set_prop v k x = Inr v' \<and> is_plain_object v'"
  by (cases "(v, k, x)" rule: set_prop.cases) (auto split: option.splits)

lemma store_plain_object:
  assumes "is_plain_object v"
  shows "\<exists>v'. store h v k s = Inr v' \<and> is_plain_object v'"
proof (cases "JSON_parse h s")
  case (Inl e)
  then show ?thesis
    using set_prop_plain_object [OF assms, of k "JStr (strip_quotes s)"]
    by (simp add: store_def bind_exn_def)
next
  case (Inr x)
  then show ?thesis
    using set_prop_plain_object [OF assms, of k x]
    by (auto simp: store_def bind_exn_def)
qed

lemma recover_plain_object:
  "is_plain_object res \<Longrightarrow>
   \<exists>res' found. recover h s res foundAny = Inr (res', found) \<and> is_plain_object res'"
proof (induction h s res foundAny rule: recover.induct)
  case (1 h res foundAny)
  then show ?case by simp
next
  case (2 h c cs res foundAny)
  show ?case
  proof (cases "match_kv (c # cs)")
    case None
    with 2 show ?thesis by simp
  next
    case (Some m)
    then obtain key valueStr rest where m: "m = (key, valueStr, rest)"
      by (cases m)
    from store_plain_object [OF "2.prems", of h key valueStr]
    obtain res' where st: "store h res key valueStr = Inr res'"
      and ob: "is_plain_object res'" by blast
    from "2.IH"(2) [OF Some m [symmetric] refl st ob] Some m st
    show ?thesis by simp
  qed
qed

lemma partialRecovery_total:
  "\<exists>p. partialRecovery h s = Inr p \<and> (\<forall>v. p = Some v \<longrightarrow> is_plain_object v)"
proof -
  obtain res' found where
    "recover h s (Plain (JObj [])) False = Inr (res', found)" "is_plain_object res'"
    using recover_plain_object [of "Plain (JObj [])" h s False] by auto
  then show ?thesis by (simp add: partialRecovery_def bind_exn_def)
qed

lemma keys_length_plain_object: "is_plain_object v \<Longrightarrow> \<exists>n. keys_length v = Inr n"
  by (cases v rule: keys_length.cases) auto

lemma recovery_or_raw_cases:
  "(\<exists>p. recovery_or_raw h t =
          Inr \<lparr> ParseResult.success = True, data = Some p, raw = None, error = None,
                strategy = Some ''partial_recovery'' \<rparr>) \<or>
   recovery_or_raw h t =
     Inr \<lparr> ParseResult.success = False, data = None, raw = Some t,
           error = Some ''All parsing strategies failed'', strategy = Some ''raw_fallback'' \<rparr>"
proof -
  obtain p where p: "partialRecovery h t = Inr p" and ob: "\<forall>v. p = Some v \<longrightarrow> is_plain_object v"
    using partialRecovery_total by blast
  show ?thesis
  proof (cases p)
    case None
    with p show ?thesis by (simp add: recovery_or_raw_def bind_exn_def)
  next
    case (Some v)
    with ob obtain n where "keys_length v = Inr n"
      using keys_length_plain_object by blast
    with p Some show ?thesis by (simp add: recovery_or_raw_def bind_exn_def)
  qed
qed

lemma recovery_or_raw_ok: "\<exists>r. recovery_or_raw h t = Inr r \<and> ParseResult_ok r"
  using recovery_or_raw_cases [of h t] by (auto simp: ParseResult_ok_def)

lemma robustJSONParse_ok: "\<exists>r. robustJSONParse h input = Inr r \<and> ParseResult_ok r"
proof (cases "input = []")
  case True
  then show ?thesis by (simp add: robustJSONParse_def ParseResult_ok_def)
next
  case False
  have rec: "\<exists>r. recovery_or_raw h (trim input) = Inr r \<and> ParseResult_ok r"
    by (rule recovery_or_raw_ok)
  show ?thesis
    using False rec
    by (auto simp: robustJSONParse_def Let_def ParseResult_ok_def
             split: sum.splits option.splits)
qed

lemma parseSSEData_ok: "\<exists>r. parseSSEData h input = Inr r \<and> ParseResult_ok r"
proof (cases "(if startsWith input ''data: '' then drop 6 input else input) = ''[DONE]''")
  case True
  then show ?thesis by (simp add: parseSSEData_def Let_def ParseResult_ok_def)
next
  case False
  then show ?thesis
    using robustJSONParse_ok [of h "if startsWith input ''data: '' then drop 6 input else input"]
    by (simp add: parseSSEData_def Let_def)
qed


subsection \<open>normalizeResponse, case by case\<close>


lemma normalizeResponse_null:
  "normalizeResponse h (Some JNull) =
     Inr \<lparr> status = ''error'', result = Some (JObj []),
           message = Some (JStr ''Empty response from agent''), metadata = None \<rparr>"
  by (simp add: normalizeResponse_def normalizeResponse_at.simps)

lemma normalizeResponse_string:
  "normalizeResponse h (Some (JStr s)) =
     (if s = []
      then Inr \<lparr> status = ''error'', result = Some (JObj []),
                 message = Some (JStr ''Empty response from agent''), metadata = None \<rparr>
      else Inr \<lparr> status = ''success'', result = Some (JObj [(''text'', JStr s)]),
                 message = Some (JStr s), metadata = None \<rparr>)"
  by (simp add: normalizeResponse_def normalizeResponse_at.simps)

lemma normalizeResponse_boolean:
  "normalizeResponse h (Some (JBool b)) =
     (if b
      then Inr \<lparr> status = ''success'', result = Some (JObj [(''value'', JBool True)]),
                 message = Some (JStr ''true''), metadata = None \<rparr>
      else Inr \<lparr> status = ''error'', result = Some (JObj []),
                 message = Some (JStr ''Empty response from agent''), metadata = None \<rparr>)"
  by (simp add: normalizeResponse_def normalizeResponse_at.simps bind_exn_def)

lemma normalizeResponse_number:
  "normalizeResponse h (Some (JNum n)) =
     (if Number_truthy h n
      then Inr \<lparr> status = ''success'', result = Some (JObj [(''value'', JNum n)]),
                 message = Some (JStr (Number_toString h n)), metadata = None \<rparr>
      else Inr \<lparr> status = ''error'', result = Some (JObj []),
                 message = Some (JStr ''Empty response from agent''), metadata = None \<rparr>)"
  by (simp add: normalizeResponse_def normalizeResponse_at.simps bind_exn_def)

lemma normalizeResponse_array:
  "normalizeResponse h (Some (JArr xs)) =
     Inr \<lparr> status = ''success'', result = Some (JArr xs), message = None, metadata = None \<rparr>"
  by (simp add: normalizeResponse_def normalizeResponse_at.simps bind_exn_def)

lemma normalizeResponse_at_object:
  "normalizeResponse_at h room (Some (JObj kvs)) =
     (if map_of kvs ''status'' \<noteq> None \<and> map_of kvs ''result'' \<noteq> None then
        Inr \<lparr> status = (if map_of kvs ''status'' = Some (JStr ''error'')
                         then ''error'' else ''success''),
              result = (if truthy h (map_of kvs ''result'') then map_of kvs ''result''
                        else Some (JObj [])),
              message = map_of kvs ''message'', metadata = map_of kvs ''metadata'' \<rparr>
      else if map_of kvs ''status'' \<noteq> None then
        Inr \<lparr> status = (if map_of kvs ''status'' = Some (JStr ''error'')
                         then ''error'' else ''success''),
              result = Some (JObj (filter (\<lambda>(k, v). k \<notin> {''status'', ''message'', ''metadata''}) kvs)),
              message = map_of kvs ''message'', metadata = map_of kvs ''metadata'' \<rparr>
      else if map_of kvs ''result'' \<noteq> None then
        Inr \<lparr> status = ''success'', result = map_of kvs ''result'',
              message = map_of kvs ''message'', metadata = map_of kvs ''metadata'' \<rparr>
      else if (case map_of kvs ''message'' of Some (JStr s) \<Rightarrow> True | _ \<Rightarrow> False) then
        Inr \<lparr> status = ''success'',
              result = Some (JObj (case map_of kvs ''message'' of
                                     None \<Rightarrow> [] | Some m \<Rightarrow> [(''text'', m)])),
              message = map_of kvs ''message'', metadata = None \<rparr>
      else if map_of kvs ''response'' \<noteq> None then
        (case room of
           0 \<Rightarrow> Inl RangeError
         | Suc k \<Rightarrow> normalizeResponse_at h k (map_of kvs ''response''))
      else
        Inr \<lparr> status = ''success'', result = Some (JObj kvs),
              message = None, metadata = None \<rparr>)"
  by (subst normalizeResponse_at.simps) (auto simp: bind_exn_def split: option.splits)





subsection \<open>The direct parse\<close>

lemma robustJSONParse_direct:
  assumes "isl (JSON_parse h [])"
    and "JSON_parse h (trim input) = Inr v"
  shows "robustJSONParse h input =
           Inr \<lparr> ParseResult.success = True, data = Some (Plain v), raw = None,
                 error = None, strategy = Some ''direct'' \<rparr>"
proof -
  have "input \<noteq> []"
  proof
    assume "input = []"
    then have "trim input = []" by (simp add: trim_def)
    with assms show False by simp
  qed
  with assms(2) show ?thesis by (simp add: robustJSONParse_def)
qed

subsection \<open>Reading and writing properties of an object\<close>






subsection \<open>The fields of a canonical response\<close>

lemma map_of_optional_field:
  "map_of (optional_field k v @ rest) k' = (if k' = k \<and> v \<noteq> None then v else map_of rest k')"
  by (cases v) (simp_all add: optional_field_def)

lemma map_of_optional_field_last:
  "map_of (optional_field k v) k' = (if k' = k then v else None)"
  by (cases v) (simp_all add: optional_field_def)

lemma map_of_outside:
  assumes "list_all (\<lambda>(k, v). k \<in> K) kvs" and "k \<notin> K"
  shows "map_of kvs k = None"
  using assms by (induction kvs) auto

lemma normalizeResponse_canonical:
  assumes "canonical kvs"
  shows "\<exists>n. normalizeResponse h (Some (JObj kvs)) = Inr n \<and>
             map_of (response_fields n) = map_of kvs"
proof -
  from assms obtain st r where
    st: "map_of kvs ''status'' = Some (JStr st)" "st = ''success'' \<or> st = ''error''"
    and r: "map_of kvs ''result'' = Some (JObj r)"
    by (auto simp: canonical_def elim!: is_status.elims is_mapping.elims)
  let ?n = "\<lparr> status = st, result = Some (JObj r),
               message = map_of kvs ''message'', metadata = map_of kvs ''metadata'' \<rparr>"
  have n: "normalizeResponse h (Some (JObj kvs)) = Inr ?n"
    using st r by (auto simp: normalizeResponse_def normalizeResponse_at_object truthy_def)
  from assms have la:
    "list_all (\<lambda>(k, v). k \<in> {''status'', ''result'', ''message'', ''metadata''}) kvs"
    by (simp add: canonical_def)
  have "map_of (response_fields ?n) k = map_of kvs k" for k
  proof (cases "k \<in> {''status'', ''result'', ''message'', ''metadata''}")
    case True
    then consider "k = ''status''" | "k = ''result''" | "k = ''message''" | "k = ''metadata''"
      by blast
    then show ?thesis
    proof cases
      case 1
      with st show ?thesis by (simp add: response_fields_def)
    next
      case 2
      with r show ?thesis by (simp add: response_fields_def map_of_optional_field map_of_optional_field_last
                 del: map_of_append)
    next
      case 3
      then show ?thesis by (simp add: response_fields_def map_of_optional_field map_of_optional_field_last
                 del: map_of_append)
    next
      case 4
      then show ?thesis
        by (simp add: response_fields_def map_of_optional_field map_of_optional_field_last
                 del: map_of_append)
    qed
  next
    case False
    with la have "map_of kvs k = None" by (rule map_of_outside)
    with False show ?thesis
      by (simp add: response_fields_def map_of_optional_field map_of_optional_field_last
                 del: map_of_append)
  qed
  then have "map_of (response_fields ?n) = map_of kvs" by (rule ext)
  with n show ?thesis by blast
qed

subsection \<open>The loop over the lines\<close>

lemma process_lines_append:
  "process_lines h clock rid (xs @ ys) st =
     bind_exn (process_lines h clock rid xs st) (process_lines h clock rid ys)"
proof (induction xs arbitrary: st)
  case Nil
  then show ?case by (simp add: bind_exn_def)
next
  case (Cons x xs)
  obtain events t d where st: "st = (events, t, d)" by (cases st)
  show ?case
    unfolding st
    by (simp add: Cons.IH bind_exn_def split: sum.splits prod.splits line_type.splits)
qed

lemma process_lines_ignored:
  assumes "trim line \<noteq> []"
    and "\<not> startsWith line ''event: ''"
    and "\<not> startsWith line ''data: ''"
  shows "process_lines h clock rid (line # lines) st = process_lines h clock rid lines st"
proof -
  obtain events t d where st: "st = (events, t, d)" by (cases st)
  show ?thesis unfolding st using assms by (simp add: parseSSELine_def)
qed

lemma split_lines_nonempty: "split_lines s \<noteq> []"
  by (induction s) (auto split: list.splits)

lemma split_lines_prefix:
  "newline \<notin> set x \<Longrightarrow> split_lines (x @ newline # s) = x # split_lines s"
  by (induction x) auto

lemma split_lines_single: "newline \<notin> set x \<Longrightarrow> split_lines x = [x]"
  by (induction x) auto

lemma split_join_lines:
  "ls \<noteq> [] \<Longrightarrow> \<forall>l \<in> set ls. newline \<notin> set l \<Longrightarrow> split_lines (join_lines ls) = ls"
proof (induction ls rule: join_lines.induct)
  case 1
  then show ?case by simp
next
  case (2 x)
  then show ?case by (simp add: split_lines_single)
next
  case (3 x y ys)
  then show ?case by (simp add: split_lines_prefix)
qed

text \<open>
  The loop refines the frames: \<open>parseSSEStream\<close> is one call of \<open>parseSSEEvent\<close> per
  frame, and when no call throws there is one event per frame.
\<close>

lemma process_lines_frames:
  "bind_exn (process_lines h clock rid ls (events, t, d))
     (\<lambda>(events', t', d'). flush h clock rid events' t' d') =
   parse_frames h clock rid events (frames ls (t, d))"
proof (induction ls arbitrary: events t d)
  case Nil
  show ?case by (simp add: bind_exn_def flush_def split: sum.splits)
next
  case (Cons l ls)
  show ?case
  proof (cases "trim l = []")
    case True
    show ?thesis
    proof (cases "d = []")
      case True
      with \<open>trim l = []\<close> Cons.IH [of events None "[]"] show ?thesis
        by (simp add: flush_def)
    next
      case False
      show ?thesis
      proof (cases "parseSSEEvent h (clock (length events)) (or_else t ''message'')
                      (join_lines d) rid")
        case (Inl e)
        with False \<open>trim l = []\<close> show ?thesis by (simp add: flush_def bind_exn_def)
      next
        case (Inr ev)
        with False \<open>trim l = []\<close> Cons.IH [of "events @ [ev]" None "[]"] show ?thesis
          by (simp add: flush_def bind_exn_def)
      qed
    qed
  next
    case False
    with Cons.IH show ?thesis by (simp add: parseSSELine_def)
  qed
qed

lemma parseSSEStream_frames:
  "parseSSEStream h clock rawSSE rid =
     parse_frames h clock rid [] (frames (split_lines rawSSE) (None, []))"
  by (simp add: parseSSEStream_def process_lines_frames)

lemma parse_frames_length:
  "parse_frames h clock rid events fs = Inr evs \<Longrightarrow> length evs = length events + length fs"
  by (induction fs arbitrary: events) (auto split: sum.splits)

subsection \<open>Claims\<close>




text \<open>
  Claim C2, at the inputs where the code departs from it. The boolean \<open>false\<close>, the
  empty string and the number \<open>0\<close> are neither absent nor \<open>null\<close>, and
  \<open>normalizeResponse\<close> answers each with the error response
  \<open>Empty response from agent\<close>: its first test is \<open>!parsed\<close>, which holds for every
  falsy value.
\<close>

theorem falsy_scalar_is_empty_response:
  "normalizeResponse h (Some (JBool False)) =
     Inr \<lparr> status = ''error'', result = Some (JObj []),
           message = Some (JStr ''Empty response from agent''), metadata = None \<rparr> \<and>
   normalizeResponse h (Some (JStr [])) =
     Inr \<lparr> status = ''error'', result = Some (JObj []),
           message = Some (JStr ''Empty response from agent''), metadata = None \<rparr> \<and>
   normalizeResponse reference_host (Some (JNum 0)) =
     Inr \<lparr> status = ''error'', result = Some (JObj []),
           message = Some (JStr ''Empty response from agent''), metadata = None \<rparr>"
  by (simp add: normalizeResponse_boolean normalizeResponse_string normalizeResponse_number
                reference_host_def)





text \<open>
  Claim C4. For every string, \<open>robustJSONParse\<close> and \<open>parseSSEData\<close> return a
  \<open>ParseResult\<close> that satisfies the invariant: on success \<open>data\<close> is present and
  \<open>strategy\<close> is one of \<open>direct\<close>, \<open>cleaned\<close>, \<open>extracted\<close>, \<open>extracted_cleaned\<close>,
  \<open>partial_recovery\<close>, \<open>sse_done\<close>; on failure \<open>raw\<close> and \<open>error\<close> are present;
  \<open>strategy\<close> is always set.
\<close>

theorem ParseResult_invariant:
  "(\<exists>r. robustJSONParse h input = Inr r \<and> ParseResult_ok r) \<and>
   (\<exists>r. parseSSEData h input = Inr r \<and> ParseResult_ok r)"
  using robustJSONParse_ok [of h input] parseSSEData_ok [of h input] by blast

theorem ParseResult_invariant_witness:
  "(\<exists>r. robustJSONParse reference_host ''null'' = Inr r \<and> ParseResult.success r \<and>
        data r \<noteq> None \<and> strategy r \<noteq> None) \<and>
   (\<exists>r. parseSSEData reference_host ''data: oops'' = Inr r \<and> \<not> ParseResult.success r \<and>
        ParseResult.raw r \<noteq> None \<and> ParseResult.error r \<noteq> None \<and> strategy r \<noteq> None)"
proof -
  obtain r1 where r1: "robustJSONParse reference_host ''null'' = Inr r1"
    and ok1: "ParseResult_ok r1"
    using ParseResult_invariant [of reference_host "''null''"] by blast
  obtain r2 where r2: "parseSSEData reference_host ''data: oops'' = Inr r2"
    and ok2: "ParseResult_ok r2"
    using ParseResult_invariant [of reference_host "''data: oops''"] by blast
  have "robustJSONParse reference_host ''null'' =
          Inr \<lparr> ParseResult.success = True, data = Some (Plain JNull), raw = None,
                error = None, strategy = Some ''direct'' \<rparr>"
    by code_simp
  with r1 have s1: "ParseResult.success r1" by auto
  have "parseSSEData reference_host ''data: oops'' =
          Inr \<lparr> ParseResult.success = False, data = None, raw = Some ''oops'',
                error = Some ''All parsing strategies failed'',
                strategy = Some ''raw_fallback'' \<rparr>"
    by code_simp
  with r2 have s2: "\<not> ParseResult.success r2" by auto
  from s1 ok1 have "data r1 \<noteq> None \<and> strategy r1 \<noteq> None"
    by (simp add: ParseResult_ok_def)
  moreover from s2 ok2 have
    "ParseResult.raw r2 \<noteq> None \<and> ParseResult.error r2 \<noteq> None \<and> strategy r2 \<noteq> None"
    by (simp add: ParseResult_ok_def)
  ultimately show ?thesis using r1 r2 s1 s2 by blast
qed

text \<open>
  Claim C5. When the trimmed input is valid JSON, that is, \<open>JSON.parse\<close> returns a value
  for it, \<open>robustJSONParse\<close> succeeds with that value and strategy \<open>direct\<close>, so with no
  later strategy. \<open>JSON.parse\<close> rejects the empty text.
\<close>

theorem direct_strategy:
  assumes "isl (JSON_parse h [])"
    and "JSON_parse h (trim input) = Inr v"
  shows "robustJSONParse h input =
           Inr \<lparr> ParseResult.success = True, data = Some (Plain v), raw = None,
                 error = None, strategy = Some ''direct'' \<rparr>"
  using assms by (rule robustJSONParse_direct)

theorem direct_strategy_witness:
  \<open>isl (JSON_parse reference_host []) \<and>
   JSON_parse reference_host (trim (''  {"a":1} '' @ [newline])) = Inr (JObj [(''a'', JNum 1)]) \<and>
   robustJSONParse reference_host (''  {"a":1} '' @ [newline]) =
     Inr \<lparr> ParseResult.success = True, data = Some (Plain (JObj [(''a'', JNum 1)])),
           raw = None, error = None, strategy = Some ''direct'' \<rparr>\<close>
proof -
  have h1: "isl (JSON_parse reference_host [])"
    by code_simp
  have h2: \<open>JSON_parse reference_host (trim (''  {"a":1} '' @ [newline])) =
              Inr (JObj [(''a'', JNum 1)])\<close>
    by code_simp
  from h1 h2 direct_strategy [OF h1 h2] show ?thesis by blast
qed

text \<open>
  Claim C6. On a non-empty input for which the direct parse and the cleaned parse throw,
  extraction finds nothing, or only the empty text, or a text that neither parses nor
  parses after cleaning, and partial recovery finds no pair or leaves an object without
  keys, \<open>robustJSONParse\<close> returns the failure with strategy \<open>raw_fallback\<close>, the trimmed
  input as \<open>raw\<close> and the error \<open>All parsing strategies failed\<close>.
\<close>

theorem unrecoverable_input_falls_back:
  assumes "input \<noteq> []"
    and "isl (JSON_parse h (trim input))"
    and "isl (JSON_parse h (cleanJsonString (trim input)))"
    and "case extractJsonFromText (trim input) of
           None \<Rightarrow> True
         | Some x \<Rightarrow> x = [] \<or> isl (JSON_parse h x) \<and> isl (JSON_parse h (cleanJsonString x))"
    and "partialRecovery h (trim input) = Inr None \<or>
         (\<exists>p. partialRecovery h (trim input) = Inr (Some p) \<and> keys_length p = Inr 0)"
  shows "robustJSONParse h input =
           Inr \<lparr> ParseResult.success = False, data = None, raw = Some (trim input),
                 error = Some ''All parsing strategies failed'',
                 strategy = Some ''raw_fallback'' \<rparr>"
proof -
  have rec: "recovery_or_raw h (trim input) =
               Inr \<lparr> ParseResult.success = False, data = None, raw = Some (trim input),
                     error = Some ''All parsing strategies failed'',
                     strategy = Some ''raw_fallback'' \<rparr>"
    using assms(5) by (auto simp: recovery_or_raw_def bind_exn_def)
  from assms(2) obtain e1 where e1: "JSON_parse h (trim input) = Inl e1"
    by (cases "JSON_parse h (trim input)") auto
  from assms(3) obtain e2 where e2: "JSON_parse h (cleanJsonString (trim input)) = Inl e2"
    by (cases "JSON_parse h (cleanJsonString (trim input))") auto
  show ?thesis
  proof (cases "extractJsonFromText (trim input)")
    case None
    with assms(1) e1 e2 rec show ?thesis by (simp add: robustJSONParse_def)
  next
    case (Some x)
    show ?thesis
    proof (cases "x = []")
      case True
      with Some assms(1) e1 e2 rec show ?thesis by (simp add: robustJSONParse_def)
    next
      case False
      with Some assms(4) have
        "isl (JSON_parse h x)" "isl (JSON_parse h (cleanJsonString x))" by simp_all
      then obtain e3 e4 where
        "JSON_parse h x = Inl e3" "JSON_parse h (cleanJsonString x) = Inl e4"
        by (cases "JSON_parse h x"; cases "JSON_parse h (cleanJsonString x)") auto
      with Some False assms(1) e1 e2 rec show ?thesis by (simp add: robustJSONParse_def)
    qed
  qed
qed

theorem unrecoverable_input_falls_back_witness:
  "robustJSONParse reference_host ''not json at all, just prose'' =
     Inr \<lparr> ParseResult.success = False, data = None,
           raw = Some ''not json at all, just prose'',
           error = Some ''All parsing strategies failed'',
           strategy = Some ''raw_fallback'' \<rparr>"
proof -
  let ?s = "''not json at all, just prose''"
  have t: "trim ?s = ?s" by code_simp
  have h1: "?s \<noteq> []" by simp
  have h2: "isl (JSON_parse reference_host (trim ?s))" by code_simp
  have h3: "isl (JSON_parse reference_host (cleanJsonString (trim ?s)))" by code_simp
  have "extractJsonFromText (trim ?s) = None" by code_simp
  then have h4: "case extractJsonFromText (trim ?s) of
                   None \<Rightarrow> True
                 | Some x \<Rightarrow> x = [] \<or> isl (JSON_parse reference_host x) \<and>
                                isl (JSON_parse reference_host (cleanJsonString x))"
    by simp
  have "partialRecovery reference_host (trim ?s) = Inr None" by code_simp
  then have h5: "partialRecovery reference_host (trim ?s) = Inr None \<or>
                 (\<exists>p. partialRecovery reference_host (trim ?s) = Inr (Some p) \<and>
                      keys_length p = Inr 0)"
    by simp
  from unrecoverable_input_falls_back [OF h1 h2 h3 h4 h5] t show ?thesis by simp
qed

text \<open>
  Claim C7, at inputs where the code departs from it. A stream whose only line is
  \<open>data: 5\<close> has one frame with one data line, and the claim asks for one event. The
  data parses to the number \<open>5\<close>, which is truthy, and \<open>parseSSEEvent\<close> then assigns
  \<open>eventData.type\<close> on a number, which throws a \<open>TypeError\<close> in strict mode:
  \<open>parseSSEStream\<close> throws and returns no event. The same happens when a complete frame
  precedes that one; its event is lost with the rest. (By \<open>parseSSEStream_frames\<close> the
  frames themselves are as the claim describes them, and by \<open>parse_frames_length\<close> a call
  that returns has emitted one event per frame.)
\<close>

theorem stream_throws_on_number:
  "frames (split_lines ''data: 5'') (None, []) = [(''message'', ''5'')] \<and>
   parseSSEStream reference_host (\<lambda>k. ''2025-01-01T00:00:00.000Z'') ''data: 5'' None =
     Inl TypeError \<and>
   parseSSEStream reference_host (\<lambda>k. ''2025-01-01T00:00:00.000Z'')
     (join_lines [''data: [DONE]'', [], ''data: 5'']) None = Inl TypeError"
  by code_simp

text \<open>
  Claim C8. For every declared type and every request id, present or not, \<open>parseSSEEvent\<close>
  on the data \<open>[DONE]\<close> returns the successful event of type \<open>chat_completed\<close> with the
  request id (the empty string when there is none) and the time of the call; and a stream
  that consists of the frame \<open>data: [DONE]\<close> yields that event and no other. Both results
  are the same for every host, so they do not depend on \<open>JSON.parse\<close>.
\<close>

theorem done_short_circuit:
  "parseSSEEvent h now declaredType ''[DONE]'' requestId =
     Inr \<lparr> ParsedSSEEvent.success = True,
           event = Some (Plain (JObj [(''type'', JStr ''chat_completed''),
                                      (''request_id'', JStr (or_else requestId [])),
                                      (''timestamp'', JStr now)])),
           eventType = Some (JStr ''chat_completed''),
           raw = None, error = None, parseStrategy = None \<rparr> \<and>
   parseSSEStream h clock ''data: [DONE]'' requestId =
     Inr [\<lparr> ParsedSSEEvent.success = True,
            event = Some (Plain (JObj [(''type'', JStr ''chat_completed''),
                                       (''request_id'', JStr (or_else requestId [])),
                                       (''timestamp'', JStr (clock 0))])),
            eventType = Some (JStr ''chat_completed''),
            raw = None, error = None, parseStrategy = None \<rparr>]"
proof
  show "parseSSEEvent h now declaredType ''[DONE]'' requestId =
     Inr \<lparr> ParsedSSEEvent.success = True,
           event = Some (Plain (JObj [(''type'', JStr ''chat_completed''),
                                      (''request_id'', JStr (or_else requestId [])),
                                      (''timestamp'', JStr now)])),
           eventType = Some (JStr ''chat_completed''),
           raw = None, error = None, parseStrategy = None \<rparr>"
    by (simp add: parseSSEEvent_def)
  have "frames (split_lines ''data: [DONE]'') (None, []) = [(''message'', ''[DONE]'')]"
    by (simp add: trim_def is_space_def startsWith_def)
  then show "parseSSEStream h clock ''data: [DONE]'' requestId =
     Inr [\<lparr> ParsedSSEEvent.success = True,
            event = Some (Plain (JObj [(''type'', JStr ''chat_completed''),
                                       (''request_id'', JStr (or_else requestId [])),
                                       (''timestamp'', JStr (clock 0))])),
            eventType = Some (JStr ''chat_completed''),
            raw = None, error = None, parseStrategy = None \<rparr>]"
    by (simp add: parseSSEStream_frames parseSSEEvent_def)
qed

text \<open>
  Claim C9. Let \<open>c\<close> be a canonical response with the properties \<open>kvs\<close>, and \<open>text\<close> a
  text that \<open>JSON.parse\<close> reads as \<open>c\<close> after trimming, as \<open>JSON.stringify(c)\<close> is. Then
  \<open>robustJSONParse\<close> returns \<open>c\<close> as its data, and \<open>normalizeResponse\<close> maps \<open>c\<close> to a
  response with the same properties and values as \<open>c\<close>.
\<close>

theorem canonical_round_trip:
  assumes "isl (JSON_parse h [])"
    and "canonical kvs"
    and "JSON_parse h (trim text) = Inr (JObj kvs)"
  shows "\<exists>r n. robustJSONParse h text = Inr r \<and> data r = Some (Plain (JObj kvs)) \<and>
               normalizeResponse h (Some (JObj kvs)) = Inr n \<and>
               map_of (response_fields n) = map_of kvs"
  using robustJSONParse_direct [OF assms(1,3)] normalizeResponse_canonical [OF assms(2), of h]
  by auto

theorem canonical_round_trip_witness:
  \<open>\<exists>r n. robustJSONParse reference_host ''{"status":"success","result":{}}'' = Inr r \<and>
          data r = Some (Plain (JObj [(''status'', JStr ''success''), (''result'', JObj [])])) \<and>
          normalizeResponse reference_host
            (Some (JObj [(''status'', JStr ''success''), (''result'', JObj [])])) = Inr n \<and>
          map_of (response_fields n) =
            map_of [(''status'', JStr ''success''), (''result'', JObj [])]\<close>
proof -
  let ?kvs = "[(''status'', JStr ''success''), (''result'', JObj [])] :: (string \<times> int json) list"
  have h1: "isl (JSON_parse reference_host [])" by code_simp
  have h2: "canonical ?kvs" by (simp add: canonical_def)
  have h3: \<open>JSON_parse reference_host (trim ''{"status":"success","result":{}}'') =
              Inr (JObj ?kvs)\<close>
    by code_simp
  from canonical_round_trip [OF h1 h2 h3] show ?thesis .
qed



text \<open>
  Claim C10. A line that is not blank and starts neither with \<open>event: \<close> nor with
  \<open>data: \<close> is ignored. The loop reaches the same state and the same events with the
  line as without it, from every state and whatever lines come before and after; and the
  stream that contains the line gives the same result as the stream without it.
\<close>

theorem unknown_line_ignored:
  assumes "trim line \<noteq> []"
    and "\<not> startsWith line ''event: ''"
    and "\<not> startsWith line ''data: ''"
  shows "process_lines h clock rid (pre @ line # post) st =
           process_lines h clock rid (pre @ post) st \<and>
         (newline \<notin> set line \<and> (\<forall>l \<in> set (pre @ post). newline \<notin> set l) \<longrightarrow>
            parseSSEStream h clock (join_lines (pre @ line # post)) rid =
            parseSSEStream h clock (join_lines (pre @ post)) rid)"
proof (intro conjI impI)
  have step: "process_lines h clock rid (line # post) s = process_lines h clock rid post s" for s
    using assms by (rule process_lines_ignored)
  show lines: "process_lines h clock rid (pre @ line # post) st =
                 process_lines h clock rid (pre @ post) st" for st
    by (simp add: process_lines_append step cong: bind_exn_cong)
  assume nl: "newline \<notin> set line \<and> (\<forall>l \<in> set (pre @ post). newline \<notin> set l)"
  then have s1: "split_lines (join_lines (pre @ line # post)) = pre @ line # post"
    by (intro split_join_lines) auto
  show "parseSSEStream h clock (join_lines (pre @ line # post)) rid =
        parseSSEStream h clock (join_lines (pre @ post)) rid"
  proof (cases "pre @ post = []")
    case True
    then have "pre = []" "post = []" by simp_all
    with assms nl show ?thesis
      by (simp add: parseSSEStream_def split_lines_single parseSSELine_def bind_exn_def
                    flush_def trim_def)
  next
    case False
    with nl have "split_lines (join_lines (pre @ post)) = pre @ post"
      by (intro split_join_lines) auto
    with s1 lines show ?thesis by (simp add: parseSSEStream_def)
  qed
qed


theorem unknown_line_ignored_witness:
  "trim ''id: 7'' \<noteq> [] \<and> \<not> startsWith ''id: 7'' ''event: '' \<and>
   \<not> startsWith ''id: 7'' ''data: '' \<and>
   parseSSEStream reference_host (\<lambda>k. ''2025-01-01T00:00:00.000Z'')
     (join_lines [''event: done'', ''id: 7'', ''data: [DONE]'']) None =
   parseSSEStream reference_host (\<lambda>k. ''2025-01-01T00:00:00.000Z'')
     (join_lines [''event: done'', ''data: [DONE]'']) None"
proof -
  have h1: "trim ''id: 7'' \<noteq> []" by code_simp
  have h2: "\<not> startsWith ''id: 7'' ''event: ''" by code_simp
  have h3: "\<not> startsWith ''id: 7'' ''data: ''" by code_simp
  have "newline \<notin> set ''id: 7'' \<and>
        (\<forall>l \<in> set ([''event: done''] @ [''data: [DONE]'']). newline \<notin> set l)"
    by simp
  with unknown_line_ignored [OF h1 h2 h3, of reference_host
         "\<lambda>k. ''2025-01-01T00:00:00.000Z''" None "[''event: done'']" "[''data: [DONE]'']"]
  have "parseSSEStream reference_host (\<lambda>k. ''2025-01-01T00:00:00.000Z'')
          (join_lines ([''event: done''] @ ''id: 7'' # [''data: [DONE]''])) None =
        parseSSEStream reference_host (\<lambda>k. ''2025-01-01T00:00:00.000Z'')
          (join_lines ([''event: done''] @ [''data: [DONE]''])) None"
    by blast
  with h1 h2 h3 show ?thesis by simp
qed


end
